theory Spec2Isabelle
  imports Complex_Main "HOL-Library.Multiset"
begin

section \<open>The adoption simulator of \<open>streamlit_app.py\<close>\<close>

text \<open>
  The simulation is the body of the \<open>if st.sidebar.button(...)\<close> branch of
  \<open>streamlit_app.py\<close> (lines 32--50) together with the three report lines 82--84.
  The six slider values are the fields of \<open>config\<close>. Python floats are modelled as
  \<open>real\<close> numbers and numpy's integer counts as \<open>nat\<close>; the process-wide numpy
  generator is an explicit \<open>random_source\<close>, whose \<open>rand_draw\<close> stream is read through a
  cursor that every call of \<open>np.random.rand()\<close> advances by one.
\<close>

subsection \<open>Errors\<close>

text \<open>
  \<open>ZeroDivisionError\<close>, \<open>ValueError\<close> and \<open>IndexError\<close> are the exceptions the script can
  raise. \<open>InvalidParameter\<close> and \<open>InsufficientMarket\<close> are the error kinds the
  specification names; no line of the script raises them.
\<close>

datatype error = ZeroDivisionError | ValueError | IndexError | InvalidParameter | InsufficientMarket

subsection \<open>Configuration and random source\<close>

record config =
  population_size :: int
  gini :: real
  p :: real
  q :: real
  income_threshold :: int
  time_periods :: int

text \<open>
  \<open>pareto_draw a i\<close> is the \<open>i\<close>-th sample \<open>np.random.pareto(a, size)\<close> returns,
  \<open>choice_draw k\<close> the \<open>k\<close>-th raw number that drives \<open>np.random.choice\<close>, and
  \<open>rand_draw k\<close> the value of the \<open>k\<close>-th call of \<open>np.random.rand()\<close>.
\<close>

record random_source =
  pareto_draw :: "real \<Rightarrow> nat \<Rightarrow> real"
  choice_draw :: "nat \<Rightarrow> nat"
  rand_draw :: "nat \<Rightarrow> real"

subsection \<open>The numpy operations the script calls\<close>

text \<open>\<open>np.random.pareto(a, size)\<close>: \<open>ValueError\<close> when \<open>a <= 0\<close> or the size is negative.\<close>

definition np_random_pareto :: "random_source \<Rightarrow> real \<Rightarrow> int \<Rightarrow> error + real list" where
  "np_random_pareto rs a sz =
     (if a \<le> 0 \<or> sz < 0 then Inl ValueError
      else Inr (map (pareto_draw rs a) [0..<nat sz]))"

text \<open>\<open>np.where(mask)[0]\<close>: the indices of the true entries, ascending.\<close>

definition np_where :: "bool list \<Rightarrow> nat list" where
  "np_where msk = filter (\<lambda>i. msk ! i) [0..<length msk]"

text \<open>\<open>np.sum\<close> of a boolean array: the number of true entries.\<close>

definition np_sum :: "bool list \<Rightarrow> nat" where
  "np_sum msk = length (filter (\<lambda>b. b) msk)"

text \<open>
  Sampling without replacement: each raw number selects one of the elements still
  available, which is then removed. Every raw stream yields distinct positions of \<open>a\<close>,
  and every ordered sample without replacement comes from some raw stream.
\<close>

fun pick :: "(nat \<Rightarrow> nat) \<Rightarrow> nat \<Rightarrow> nat list \<Rightarrow> nat \<Rightarrow> nat list" where
  "pick raw c a 0 = []"
| "pick raw c [] (Suc k) = []"
| "pick raw c (x # xs) (Suc k) =
     (let j = raw c mod length (x # xs)
      in (x # xs) ! j # pick raw (Suc c) (take j (x # xs) @ drop (Suc j) (x # xs)) k)"

text \<open>
  \<open>np.random.choice(a, size=size, replace=False)\<close>: \<open>ValueError\<close> when the sample is larger
  than the population (for an empty \<open>a\<close> as well, the size being positive here).
\<close>

definition np_random_choice :: "random_source \<Rightarrow> nat list \<Rightarrow> int \<Rightarrow> error + nat list" where
  "np_random_choice rs a sz =
     (if sz < 0 \<or> int (length a) < sz then Inl ValueError
      else Inr (pick (choice_draw rs) 0 a (nat sz)))"

text \<open>\<open>has_adopted[idxs] = True\<close>, for indices that are in range.\<close>

definition set_true :: "nat list \<Rightarrow> bool list \<Rightarrow> bool list" where
  "set_true idxs h = fold (\<lambda>i acc. acc[i := True]) idxs h"

subsection \<open>Setup: incomes, affordability mask, initial adopters\<close>

text \<open>Line 33. \<open>1/gini\<close> on a Python float raises \<open>ZeroDivisionError\<close> for \<open>gini = 0\<close>.\<close>

definition sample_incomes :: "random_source \<Rightarrow> config \<Rightarrow> error + real list" where
  "sample_incomes rs cfg =
     (if gini cfg = 0 then Inl ZeroDivisionError
      else case np_random_pareto rs (1 / gini cfg) (population_size cfg) of
             Inl e \<Rightarrow> Inl e
           | Inr xs \<Rightarrow> Inr (map (\<lambda>x. x * 20000) xs))"

text \<open>Line 36.\<close>

definition afford_mask :: "config \<Rightarrow> real list \<Rightarrow> bool list" where
  "afford_mask cfg incs = map (\<lambda>x. real_of_int (income_threshold cfg) \<le> x) incs"

text \<open>The size argument of line 38.\<close>

definition initial_size :: "config \<Rightarrow> int" where
  "initial_size cfg = max 10 (population_size cfg div 100)"

subsection \<open>The simulation loop\<close>

record sim_state =
  has_adopted :: "bool list"
  rand_pos :: nat
  adoption_timeline :: "nat list"

text \<open>Line 48. The value is not clamped to the unit interval.\<close>

definition prob_adopt :: "config \<Rightarrow> nat \<Rightarrow> real" where
  "prob_adopt cfg current_adopters =
     p cfg + q cfg * (real current_adopters / real_of_int (population_size cfg))"

text \<open>
  Lines 47--50, over the index list \<open>idxs\<close>. The probability is recomputed in every
  iteration from \<open>current_adopters\<close>, the count taken at the start of the step. Each
  iteration reads the next value of the shared stream. The indices come from
  \<open>np.where\<close> over arrays of the length of \<open>h\<close>, so every update is in range.
\<close>

fun adopt_loop :: "config \<Rightarrow> random_source \<Rightarrow> nat \<Rightarrow> nat list \<Rightarrow> bool list \<times> nat \<Rightarrow> bool list \<times> nat" where
  "adopt_loop cfg rs current_adopters [] (h, c) = (h, c)"
| "adopt_loop cfg rs current_adopters (idx # rest) (h, c) =
     adopt_loop cfg rs current_adopters rest
       (if rand_draw rs c < prob_adopt cfg current_adopters then h[idx := True] else h, Suc c)"

text \<open>Line 46: the agents that have not adopted and can afford.\<close>

definition potential_adopters_idx :: "bool list \<Rightarrow> bool list \<Rightarrow> nat list" where
  "potential_adopters_idx h msk = np_where (map2 (\<lambda>a c. \<not> a \<and> c) h msk)"

text \<open>One iteration of the loop of line 43 (lines 44--50).\<close>

definition step :: "config \<Rightarrow> random_source \<Rightarrow> bool list \<Rightarrow> sim_state \<Rightarrow> sim_state" where
  "step cfg rs msk s =
     (let current_adopters = np_sum (has_adopted s);
          timeline = adoption_timeline s @ [current_adopters];
          hc = adopt_loop cfg rs current_adopters
                 (potential_adopters_idx (has_adopted s) msk) (has_adopted s, rand_pos s)
      in \<lparr>has_adopted = fst hc, rand_pos = snd hc, adoption_timeline = timeline\<rparr>)"

text \<open>\<open>for t in range(n)\<close>: the state after \<open>n\<close> iterations.\<close>

fun sim_loop :: "config \<Rightarrow> random_source \<Rightarrow> bool list \<Rightarrow> nat \<Rightarrow> sim_state \<Rightarrow> sim_state" where
  "sim_loop cfg rs msk 0 s = s"
| "sim_loop cfg rs msk (Suc n) s = sim_loop cfg rs msk n (step cfg rs msk s)"

subsection \<open>The whole run\<close>

record sim_result =
  incomes :: "real list"
  can_afford :: "bool list"
  initial_adopters :: "nat list"
  final :: sim_state

text \<open>Lines 36--40: the state the loop starts from.\<close>

definition initial_state :: "nat list \<Rightarrow> nat \<Rightarrow> sim_state" where
  "initial_state ini n =
     \<lparr>has_adopted = set_true ini (replicate n False), rand_pos = 0, adoption_timeline = []\<rparr>"

text \<open>Lines 32--50.\<close>

definition simulate :: "random_source \<Rightarrow> config \<Rightarrow> error + sim_result" where
  "simulate rs cfg =
     (case sample_incomes rs cfg of
        Inl e \<Rightarrow> Inl e
      | Inr incs \<Rightarrow>
          (let msk = afford_mask cfg incs
           in case np_random_choice rs (np_where msk) (initial_size cfg) of
                Inl e \<Rightarrow> Inl e
              | Inr ini \<Rightarrow>
                  Inr \<lparr>incomes = incs, can_afford = msk, initial_adopters = ini,
                       final = sim_loop cfg rs msk (nat (time_periods cfg))
                                 (initial_state ini (nat (population_size cfg)))\<rparr>))"

subsection \<open>The report (lines 82--84)\<close>

text \<open>
  A division whose zero divisor is visible: \<open>None\<close> stands for the quotient numpy would
  compute from a zero divisor.
\<close>

definition truediv :: "real \<Rightarrow> real \<Rightarrow> real option" where
  "truediv a b = (if b = 0 then None else Some (a / b))"

text \<open>Line 84: the conditional expression evaluates the division only when the test holds.\<close>

definition market_penetration :: "nat \<Rightarrow> nat \<Rightarrow> real option" where
  "market_penetration final_adopters total_addressable_market =
     (if total_addressable_market > 0
      then map_option (\<lambda>x. x * 100) (truediv (real final_adopters) (real total_addressable_market))
      else Some 0)"

text \<open>Line 83: \<open>adoption_timeline[-1]\<close> raises \<open>IndexError\<close> on an empty list.\<close>

definition final_adopters :: "sim_result \<Rightarrow> error + nat" where
  "final_adopters r =
     (case adoption_timeline (final r) of
        [] \<Rightarrow> Inl IndexError
      | _ \<Rightarrow> Inr (last (adoption_timeline (final r))))"

definition total_addressable_market :: "sim_result \<Rightarrow> nat" where
  "total_addressable_market r = np_sum (can_afford r)"

text \<open>Lines 82--84 together: addressable market, final adopters, penetration.\<close>

definition report :: "sim_result \<Rightarrow> error + nat \<times> nat \<times> real option" where
  "report r =
     (let tam = total_addressable_market r
      in case final_adopters r of
           Inl e \<Rightarrow> Inl e
         | Inr fa \<Rightarrow> Inr (tam, fa, market_penetration fa tam))"

subsection \<open>Observation points of a run\<close>

text \<open>
  The addressable market as the setup sees it: the number of true entries of the mask
  of line 36 (\<open>0\<close> when the income sample could not be drawn).
\<close>

definition addressable_market :: "random_source \<Rightarrow> config \<Rightarrow> nat" where
  "addressable_market rs cfg =
     (case sample_incomes rs cfg of
        Inl e \<Rightarrow> 0
      | Inr incs \<Rightarrow> np_sum (afford_mask cfg incs))"

text \<open>The state of the run \<open>r\<close> after the setup and \<open>k\<close> iterations of the loop.\<close>

definition state_after :: "random_source \<Rightarrow> config \<Rightarrow> sim_result \<Rightarrow> nat \<Rightarrow> sim_state" where
  "state_after rs cfg r k =
     sim_loop cfg rs (can_afford r) k
       (initial_state (initial_adopters r) (nat (population_size cfg)))"

subsection \<open>Concrete runs\<close>

text \<open>
  A random source whose Pareto samples are all \<open>1\<close> (every income is \<open>20000\<close>), whose
  sampling always takes the first agent still available, and whose uniform draws are
  all \<open>0\<close>.
\<close>

definition demo_source :: random_source where
  "demo_source = \<lparr>pareto_draw = (\<lambda>a i. 1), choice_draw = (\<lambda>k. 0), rand_draw = (\<lambda>k. 0)\<rparr>"

text \<open>Twelve agents, all able to afford; ten of them are the initial adopters.\<close>

definition demo_config :: config where
  "demo_config = \<lparr>population_size = 12, gini = 1 / 2, p = 1 / 10, q = 1 / 2,
                   income_threshold = 15000, time_periods = 3\<rparr>"

text \<open>The same population run for a single period.\<close>

definition one_period_config :: config where
  "one_period_config = demo_config\<lparr>time_periods := 1\<rparr>"

text \<open>
  The scenario of a market that is too small: a hundred agents with income \<open>20000\<close>
  and a threshold of \<open>30000\<close>.
\<close>

definition small_market_config :: config where
  "small_market_config = \<lparr>population_size = 100, gini = 1 / 5, p = 1 / 50, q = 9 / 20,
                           income_threshold = 30000, time_periods = 30\<rparr>"

text \<open>An empty population.\<close>

definition empty_population_config :: config where
  "empty_population_config = demo_config\<lparr>population_size := 0\<rparr>"

section \<open>Properties of the numpy operations\<close>

lemma set_np_where: "set (np_where m) = {i. i < length m \<and> m ! i}"
  by (auto simp: np_where_def)

lemma distinct_np_where: "distinct (np_where m)"
  by (simp add: np_where_def)

lemma length_np_where: "length (np_where m) = np_sum m"
proof -
  have "filter (\<lambda>b. b) (map ((!) m) [0..<length m]) = map ((!) m) (filter (\<lambda>i. m ! i) [0..<length m])"
    by (simp add: filter_map comp_def)
  then have "length (filter (\<lambda>b. b) m) = length (filter (\<lambda>i. m ! i) [0..<length m])"
    by (simp add: map_nth)
  then show ?thesis by (simp add: np_where_def np_sum_def)
qed

lemma np_sum_card: "np_sum m = card {i. i < length m \<and> m ! i}"
  using distinct_card [OF distinct_np_where, of m]
  by (simp add: set_np_where length_np_where)

lemma np_sum_mono:
  assumes "length h = length h'" and "\<And>i. i < length h \<Longrightarrow> h ! i \<Longrightarrow> h' ! i"
  shows "np_sum h \<le> np_sum h'"
proof -
  have "{i. i < length h \<and> h ! i} \<subseteq> {i. i < length h' \<and> h' ! i}"
    using assms by auto
  then show ?thesis
    by (simp add: np_sum_card card_mono)
qed

lemma np_sum_le_length: "np_sum m \<le> length m"
  by (simp add: np_sum_def)

lemma set_pick: "set (pick raw c a k) \<subseteq> set a"
proof (induction raw c a k rule: pick.induct)
  case (3 raw c x xs k)
  let ?a = "x # xs"
  let ?j = "raw c mod length ?a"
  have j: "?j < length ?a" by simp
  have "set (take ?j ?a @ drop (Suc ?j) ?a) \<subseteq> set ?a"
    using set_take_subset [of ?j ?a] set_drop_subset [of "Suc ?j" ?a] by auto
  moreover have "?a ! ?j \<in> set ?a" using j by (rule nth_mem)
  ultimately show ?case using 3 by (auto simp: Let_def simp del: nth_Cons_Suc take_Suc_Cons drop_Suc_Cons)
qed simp_all

lemma distinct_pick: "distinct a \<Longrightarrow> distinct (pick raw c a k)"
proof (induction raw c a k rule: pick.induct)
  case (3 raw c x xs k)
  let ?a = "x # xs"
  let ?j = "raw c mod length ?a"
  let ?r = "take ?j ?a @ drop (Suc ?j) ?a"
  have j: "?j < length ?a" by simp
  have split: "?a = take ?j ?a @ ?a ! ?j # drop (Suc ?j) ?a"
    using j by (rule id_take_nth_drop)
  have "distinct (take ?j ?a @ ?a ! ?j # drop (Suc ?j) ?a)"
    using 3(2) split by metis
  then have d: "distinct ?r" and n: "?a ! ?j \<notin> set ?r"
    by auto
  have "distinct (pick raw (Suc c) ?r k)"
    using 3(1) [OF refl d] .
  moreover have "?a ! ?j \<notin> set (pick raw (Suc c) ?r k)"
    using n set_pick [of raw "Suc c" ?r k] by blast
  ultimately show ?case by (simp add: Let_def del: nth_Cons_Suc take_Suc_Cons drop_Suc_Cons)
qed simp_all

lemma length_remove_nth: "j < length a \<Longrightarrow> length (take j a @ drop (Suc j) a) = length a - 1"
  by (simp add: min_def)

lemma length_pick: "k \<le> length a \<Longrightarrow> length (pick raw c a k) = k"
proof (induction raw c a k rule: pick.induct)
  case (3 raw c x xs k)
  let ?a = "x # xs"
  let ?j = "raw c mod length ?a"
  let ?r = "take ?j ?a @ drop (Suc ?j) ?a"
  have j: "?j < length ?a" by simp
  have "length ?r = length ?a - 1" using j by (rule length_remove_nth)
  then have "k \<le> length ?r" using 3(2) by simp
  then have "length (pick raw (Suc c) ?r k) = k" using 3(1) [OF refl] by blast
  then show ?case by (simp add: Let_def del: nth_Cons_Suc take_Suc_Cons drop_Suc_Cons)
qed simp_all

lemma length_set_true: "length (set_true idxs h) = length h"
  unfolding set_true_def by (induction idxs arbitrary: h) simp_all

lemma nth_set_true: "i < length h \<Longrightarrow> set_true idxs h ! i = (h ! i \<or> i \<in> set idxs)"
proof (induction idxs arbitrary: h)
  case Nil
  then show ?case by (simp add: set_true_def)
next
  case (Cons a idxs)
  have "set_true (a # idxs) h = set_true idxs (h[a := True])"
    by (simp add: set_true_def)
  moreover have "set_true idxs (h[a := True]) ! i = (h[a := True] ! i \<or> i \<in> set idxs)"
    using Cons.IH [of "h[a := True]"] Cons.prems by simp
  moreover have "h[a := True] ! i = (h ! i \<or> i = a)"
    using Cons.prems by (cases "i = a") simp_all
  ultimately show ?case by auto
qed

lemma np_sum_set_true:
  assumes "distinct idxs" and "\<And>i. i \<in> set idxs \<Longrightarrow> i < n"
  shows "np_sum (set_true idxs (replicate n False)) = length idxs"
proof -
  have "{i. i < n \<and> set_true idxs (replicate n False) ! i} = set idxs"
    using assms(2) by (auto simp: nth_set_true)
  then show ?thesis
    using distinct_card [OF assms(1)] by (simp add: np_sum_card length_set_true)
qed

section \<open>Properties of the loop\<close>

lemma adopt_loop_length: "length (fst (adopt_loop cfg rs cur idxs (h, c))) = length h"
  by (induction idxs arbitrary: h c) simp_all

lemma adopt_loop_pos: "snd (adopt_loop cfg rs cur idxs (h, c)) = c + length idxs"
  by (induction idxs arbitrary: h c) simp_all

lemma adopt_loop_nth:
  assumes "i < length h"
  shows "fst (adopt_loop cfg rs cur idxs (h, c)) ! i =
         (h ! i \<or> (\<exists>j < length idxs. idxs ! j = i \<and> rand_draw rs (c + j) < prob_adopt cfg cur))"
  using assms
proof (induction idxs arbitrary: h c)
  case Nil
  then show ?case by simp
next
  case (Cons idx rest)
  let ?h = "if rand_draw rs c < prob_adopt cfg cur then h[idx := True] else h"
  have len: "i < length ?h" using Cons.prems by simp
  have hd: "?h ! i = (h ! i \<or> (idx = i \<and> rand_draw rs c < prob_adopt cfg cur))"
    using Cons.prems by (cases "idx = i") simp_all
  have "fst (adopt_loop cfg rs cur (idx # rest) (h, c)) ! i =
        (?h ! i \<or> (\<exists>j < length rest. rest ! j = i \<and> rand_draw rs (Suc c + j) < prob_adopt cfg cur))"
    using Cons.IH [OF len, of "Suc c"] by simp
  also have "\<dots> = (h ! i \<or> (\<exists>j < length (idx # rest). (idx # rest) ! j = i
                      \<and> rand_draw rs (c + j) < prob_adopt cfg cur))"
  proof -
    have "(\<exists>j < length (idx # rest). (idx # rest) ! j = i \<and> rand_draw rs (c + j) < prob_adopt cfg cur)
          = ((idx = i \<and> rand_draw rs c < prob_adopt cfg cur)
             \<or> (\<exists>j < length rest. rest ! j = i \<and> rand_draw rs (Suc c + j) < prob_adopt cfg cur))"
      by (auto simp: less_Suc_eq_0_disj)
    then show ?thesis using hd by blast
  qed
  finally show ?case .
qed

lemma set_potential:
  "length h = length msk \<Longrightarrow>
   set (potential_adopters_idx h msk) = {i. i < length msk \<and> \<not> h ! i \<and> msk ! i}"
  by (auto simp: potential_adopters_idx_def set_np_where)

lemma step_timeline:
  "adoption_timeline (step cfg rs msk s) = adoption_timeline s @ [np_sum (has_adopted s)]"
  by (simp add: step_def Let_def)

lemma step_length: "length (has_adopted (step cfg rs msk s)) = length (has_adopted s)"
  by (simp add: step_def Let_def adopt_loop_length)

lemma step_nth:
  assumes "i < length (has_adopted s)"
  shows "has_adopted (step cfg rs msk s) ! i =
         (has_adopted s ! i \<or>
          (\<exists>j < length (potential_adopters_idx (has_adopted s) msk).
             potential_adopters_idx (has_adopted s) msk ! j = i
             \<and> rand_draw rs (rand_pos s + j) < prob_adopt cfg (np_sum (has_adopted s))))"
  using adopt_loop_nth [OF assms] by (simp add: step_def Let_def)

lemma step_keeps: "i < length (has_adopted s) \<Longrightarrow> has_adopted s ! i \<Longrightarrow> has_adopted (step cfg rs msk s) ! i"
  by (simp add: step_nth)

lemma step_affordable:
  assumes "length (has_adopted s) = length msk" "i < length msk"
    and "has_adopted (step cfg rs msk s) ! i" "\<not> has_adopted s ! i"
  shows "msk ! i"
proof -
  let ?pot = "potential_adopters_idx (has_adopted s) msk"
  from assms obtain j where "j < length ?pot" "?pot ! j = i"
    by (auto simp: step_nth)
  then have "i \<in> set ?pot" by (metis nth_mem)
  then show ?thesis using assms(1) by (simp add: set_potential)
qed

lemma sim_loop_Suc: "sim_loop cfg rs msk (Suc n) s = step cfg rs msk (sim_loop cfg rs msk n s)"
  by (induction n arbitrary: s) simp_all

lemma sim_loop_funpow: "sim_loop cfg rs msk n s = (step cfg rs msk ^^ n) s"
  by (induction n) (simp_all add: sim_loop_Suc del: sim_loop.simps(2))

lemma sim_loop_length: "length (has_adopted (sim_loop cfg rs msk n s)) = length (has_adopted s)"
  by (induction n) (simp_all add: sim_loop_Suc step_length del: sim_loop.simps(2))

lemma sim_loop_timeline:
  "adoption_timeline (sim_loop cfg rs msk n s) =
   adoption_timeline s @ map (\<lambda>t. np_sum (has_adopted (sim_loop cfg rs msk t s))) [0..<n]"
  by (induction n) (simp_all add: sim_loop_Suc step_timeline del: sim_loop.simps(2))

lemma sim_loop_invariant:
  assumes "length (has_adopted s) = length msk"
    and "\<And>i. i < length msk \<Longrightarrow> has_adopted s ! i \<Longrightarrow> msk ! i"
    and "i < length msk" "has_adopted (sim_loop cfg rs msk n s) ! i"
  shows "msk ! i"
  using assms(3,4)
proof (induction n arbitrary: i)
  case 0
  then show ?case using assms(2) by simp
next
  case (Suc n)
  let ?s = "sim_loop cfg rs msk n s"
  have len: "length (has_adopted ?s) = length msk"
    using assms(1) by (simp add: sim_loop_length)
  show ?case
  proof (cases "has_adopted ?s ! i")
    case True
    then show ?thesis using Suc by blast
  next
    case False
    have "has_adopted (step cfg rs msk ?s) ! i"
      using Suc.prems(2) by (simp only: sim_loop_Suc)
    then show ?thesis using step_affordable [OF len Suc.prems(1) _ False] by blast
  qed
qed

lemma sim_loop_keeps:
  "i < length (has_adopted s) \<Longrightarrow> has_adopted (sim_loop cfg rs msk n s) ! i \<Longrightarrow>
   has_adopted (sim_loop cfg rs msk (n + m) s) ! i"
proof (induction m)
  case 0
  then show ?case by simp
next
  case (Suc m)
  then have "has_adopted (sim_loop cfg rs msk (n + m) s) ! i" by blast
  moreover have "i < length (has_adopted (sim_loop cfg rs msk (n + m) s))"
    using Suc.prems(1) by (simp add: sim_loop_length)
  ultimately show ?case
    by (simp add: sim_loop_Suc step_keeps del: sim_loop.simps(2))
qed

lemma sim_loop_count_mono:
  "np_sum (has_adopted (sim_loop cfg rs msk n s)) \<le> np_sum (has_adopted (sim_loop cfg rs msk (Suc n) s))"
proof (rule np_sum_mono)
  show "length (has_adopted (sim_loop cfg rs msk n s)) = length (has_adopted (sim_loop cfg rs msk (Suc n) s))"
    by (simp only: sim_loop_length)
next
  fix i assume "i < length (has_adopted (sim_loop cfg rs msk n s))" "has_adopted (sim_loop cfg rs msk n s) ! i"
  then show "has_adopted (sim_loop cfg rs msk (Suc n) s) ! i"
    by (simp add: sim_loop_Suc step_keeps del: sim_loop.simps(2))
qed

section \<open>Properties of the setup and of whole runs\<close>

lemma sample_incomes_ok:
  "0 < gini cfg \<Longrightarrow> 0 \<le> population_size cfg \<Longrightarrow>
   sample_incomes rs cfg =
     Inr (map (\<lambda>x. x * 20000) (map (pareto_draw rs (1 / gini cfg)) [0..<nat (population_size cfg)]))"
  by (simp add: sample_incomes_def np_random_pareto_def)

lemma sample_incomes_Inr:
  assumes "sample_incomes rs cfg = Inr incs"
  shows "0 < gini cfg \<and> 0 \<le> population_size cfg \<and> length incs = nat (population_size cfg)"
  using assms
  by (auto simp: sample_incomes_def np_random_pareto_def not_le split: if_splits)

lemma sample_incomes_bad:
  "population_size cfg < 0 \<or> gini cfg \<le> 0 \<Longrightarrow>
   sample_incomes rs cfg = Inl (if gini cfg = 0 then ZeroDivisionError else ValueError)"
  by (auto simp: sample_incomes_def np_random_pareto_def)

lemma length_afford_mask: "length (afford_mask cfg incs) = length incs"
  by (simp add: afford_mask_def)

lemma initial_size_ge: "10 \<le> initial_size cfg"
  by (simp add: initial_size_def)

lemma simulate_Inr:
  assumes "simulate rs cfg = Inr r"
  shows "sample_incomes rs cfg = Inr (incomes r)"
    and "can_afford r = afford_mask cfg (incomes r)"
    and "np_random_choice rs (np_where (can_afford r)) (initial_size cfg) = Inr (initial_adopters r)"
    and "final r = state_after rs cfg r (nat (time_periods cfg))"
  using assms
  by (auto simp: simulate_def state_after_def Let_def split: sum.splits)

lemma simulate_short:
  assumes "sample_incomes rs cfg = Inr incs"
    and "int (np_sum (afford_mask cfg incs)) < initial_size cfg"
  shows "simulate rs cfg = Inl ValueError"
  using assms
  by (simp add: simulate_def Let_def np_random_choice_def length_np_where)

lemma simulate_succeeds:
  assumes "0 < gini cfg" "0 \<le> population_size cfg"
    and "initial_size cfg \<le> int (addressable_market rs cfg)"
  shows "\<exists>r. simulate rs cfg = Inr r"
proof -
  obtain incs where incs: "sample_incomes rs cfg = Inr incs"
    using sample_incomes_ok [OF assms(1,2)] by blast
  then have "initial_size cfg \<le> int (length (np_where (afford_mask cfg incs)))"
    using assms(3) by (simp add: addressable_market_def length_np_where)
  moreover have "0 \<le> initial_size cfg" using initial_size_ge [of cfg] by simp
  ultimately show ?thesis
    using incs by (simp add: simulate_def Let_def np_random_choice_def)
qed

lemma simulate_market:
  assumes "simulate rs cfg = Inr r"
  shows "addressable_market rs cfg = np_sum (can_afford r)"
    and "initial_size cfg \<le> int (np_sum (can_afford r))"
proof -
  show "addressable_market rs cfg = np_sum (can_afford r)"
    using simulate_Inr(1,2) [OF assms] by (simp add: addressable_market_def)
  show "initial_size cfg \<le> int (np_sum (can_afford r))"
    using simulate_Inr(3) [OF assms]
    by (simp add: np_random_choice_def length_np_where split: if_splits)
qed

lemma simulate_mask_length:
  assumes "simulate rs cfg = Inr r"
  shows "length (can_afford r) = nat (population_size cfg)"
  using simulate_Inr(1,2) [OF assms] sample_incomes_Inr [of rs cfg "incomes r"]
  by (simp add: length_afford_mask)

lemma simulate_initial:
  assumes "simulate rs cfg = Inr r"
  shows "distinct (initial_adopters r)"
    and "set (initial_adopters r) \<subseteq> {i. i < length (can_afford r) \<and> can_afford r ! i}"
    and "length (initial_adopters r) = nat (initial_size cfg)"
proof -
  let ?a = "np_where (can_afford r)"
  let ?k = "nat (initial_size cfg)"
  have ch: "initial_adopters r = pick (choice_draw rs) 0 ?a ?k" and le: "?k \<le> length ?a"
    using simulate_Inr(3) [OF assms]
    by (auto simp: np_random_choice_def split: if_splits)
  show "distinct (initial_adopters r)"
    unfolding ch by (rule distinct_pick [OF distinct_np_where])
  show "set (initial_adopters r) \<subseteq> {i. i < length (can_afford r) \<and> can_afford r ! i}"
    unfolding ch using set_pick [of "choice_draw rs" 0 ?a ?k] by (simp add: set_np_where)
  show "length (initial_adopters r) = ?k"
    unfolding ch using le by (rule length_pick)
qed

lemma initial_state_length: "length (has_adopted (initial_state ini n)) = n"
  by (simp add: initial_state_def length_set_true)

lemma initial_state_nth: "i < n \<Longrightarrow> has_adopted (initial_state ini n) ! i = (i \<in> set ini)"
  by (simp add: initial_state_def nth_set_true)

lemma initial_state_timeline: "adoption_timeline (initial_state ini n) = []"
  by (simp add: initial_state_def)

lemma state_after_length:
  assumes "simulate rs cfg = Inr r"
  shows "length (has_adopted (state_after rs cfg r k)) = length (can_afford r)"
  using simulate_mask_length [OF assms]
  by (simp add: state_after_def sim_loop_length initial_state_length)

lemma state_after_timeline:
  "adoption_timeline (state_after rs cfg r n) =
   map (\<lambda>t. np_sum (has_adopted (state_after rs cfg r t))) [0..<n]"
  unfolding state_after_def
  by (simp add: sim_loop_timeline [of cfg rs "can_afford r" n] initial_state_timeline)

lemma state_after_Suc:
  "state_after rs cfg r (Suc k) = step cfg rs (can_afford r) (state_after rs cfg r k)"
  by (simp add: state_after_def sim_loop_Suc del: sim_loop.simps(2))

lemma initial_count:
  assumes "simulate rs cfg = Inr r"
  shows "np_sum (has_adopted (state_after rs cfg r 0)) = nat (initial_size cfg)"
proof -
  have "\<And>i. i \<in> set (initial_adopters r) \<Longrightarrow> i < nat (population_size cfg)"
    using simulate_initial(2) [OF assms] simulate_mask_length [OF assms] by auto
  then have "np_sum (set_true (initial_adopters r) (replicate (nat (population_size cfg)) False))
             = length (initial_adopters r)"
    using simulate_initial(1) [OF assms] by (rule np_sum_set_true [rotated])
  then show ?thesis
    using simulate_initial(3) [OF assms] by (simp add: state_after_def initial_state_def)
qed

lemma step_idle:
  "potential_adopters_idx (has_adopted s) msk = [] \<Longrightarrow>
   has_adopted (step cfg rs msk s) = has_adopted s"
  by (simp add: step_def Let_def)

lemma state_after_idle:
  assumes "potential_adopters_idx (has_adopted (state_after rs cfg r k)) (can_afford r) = []"
  shows "has_adopted (state_after rs cfg r (k + m)) = has_adopted (state_after rs cfg r k)"
proof (induction m)
  case 0
  then show ?case by simp
next
  case (Suc m)
  have "has_adopted (state_after rs cfg r (Suc (k + m))) = has_adopted (state_after rs cfg r (k + m))"
    unfolding state_after_Suc using assms Suc by (intro step_idle) simp
  then show ?case using Suc by simp
qed

lemma state_after_funpow:
  "state_after rs cfg r n = (step cfg rs (can_afford r) ^^ n) (state_after rs cfg r 0)"
  by (simp add: state_after_def sim_loop_funpow)

lemma simulate_empty_population:
  assumes "0 < gini cfg" "population_size cfg = 0"
  shows "sample_incomes rs cfg = Inr []" and "simulate rs cfg = Inl ValueError"
proof -
  show s: "sample_incomes rs cfg = Inr []"
    using sample_incomes_ok [of cfg rs] assms by simp
  have "int (np_sum (afford_mask cfg [])) < initial_size cfg"
    using initial_size_ge [of cfg] by (simp add: afford_mask_def np_sum_def)
  then show "simulate rs cfg = Inl ValueError"
    using s by (rule simulate_short [rotated])
qed

lemma simulate_no_incomes:
  "sample_incomes rs cfg = Inl e \<Longrightarrow> simulate rs cfg = Inl e"
  by (simp add: simulate_def)

lemma initial_state_pos: "rand_pos (initial_state ini n) = 0"
  by (simp add: initial_state_def)

lemma step_pos:
  "rand_pos (step cfg rs msk s) = rand_pos s + length (potential_adopters_idx (has_adopted s) msk)"
  by (simp add: step_def Let_def adopt_loop_pos)

lemma adopt_loop_keyed:
  assumes "\<forall>j < length idxs. rand_draw rs (c + j) = u (idxs ! j)" and "i < length h"
  shows "fst (adopt_loop cfg rs cur idxs (h, c)) ! i =
         (h ! i \<or> (i \<in> set idxs \<and> u i < prob_adopt cfg cur))"
proof -
  have "(\<exists>j < length idxs. idxs ! j = i \<and> rand_draw rs (c + j) < prob_adopt cfg cur)
        = (i \<in> set idxs \<and> u i < prob_adopt cfg cur)"
    using assms(1) by (auto simp: in_set_conv_nth)
  then show ?thesis using adopt_loop_nth [OF assms(2)] by simp
qed

text \<open>
  The script itself reads one shared stream: with the same stream, the two orders of
  two eligible agents give different adoption arrays.
\<close>

lemma shared_stream_depends_on_order:
  "fst (adopt_loop demo_config
          \<lparr>pareto_draw = (\<lambda>a i. 1), choice_draw = (\<lambda>k. 0), rand_draw = (\<lambda>k. if k = 0 then 0 else 1)\<rparr>
          1 [0, 1] ([False, False, True], 0)) = [True, False, True]
   \<and> fst (adopt_loop demo_config
          \<lparr>pareto_draw = (\<lambda>a i. 1), choice_draw = (\<lambda>k. 0), rand_draw = (\<lambda>k. if k = 0 then 0 else 1)\<rparr>
          1 [1, 0] ([False, False, True], 0)) = [False, True, True]"
  by code_simp

section \<open>The claims\<close>

subsection \<open>The adoption timeline\<close>

text \<open>
  Claim C1. Whenever the setup succeeds (a positive Gini coefficient, a positive
  population and an addressable market of at least \<open>max(10, N // 100)\<close> agents), the run
  returns a result whose final state is the \<open>time_periods\<close>-fold iterate of the loop body
  on the initial state: the loop has no early exit. Its timeline has exactly
  \<open>time_periods\<close> entries, entry \<open>t\<close> is the number of adopters in the state before
  iteration \<open>t\<close> changes it, and once no agent is eligible any more every later entry
  repeats the same value.
\<close>

theorem timeline_records_each_period:
  assumes "0 < gini cfg" and "0 < population_size cfg"
    and "initial_size cfg \<le> int (addressable_market rs cfg)"
  shows "\<exists>r. simulate rs cfg = Inr r
           \<and> final r = (step cfg rs (can_afford r) ^^ nat (time_periods cfg)) (state_after rs cfg r 0)
           \<and> length (adoption_timeline (final r)) = nat (time_periods cfg)
           \<and> (\<forall>t < nat (time_periods cfg).
                 adoption_timeline (final r) ! t = np_sum (has_adopted (state_after rs cfg r t)))
           \<and> (\<forall>k t. k \<le> t \<and> t < nat (time_periods cfg)
                 \<and> potential_adopters_idx (has_adopted (state_after rs cfg r k)) (can_afford r) = []
                 \<longrightarrow> adoption_timeline (final r) ! t = adoption_timeline (final r) ! k)"
proof -
  from assms obtain r where r: "simulate rs cfg = Inr r"
    using simulate_succeeds [of cfg rs] by auto
  let ?T = "nat (time_periods cfg)"
  have fin: "final r = state_after rs cfg r ?T"
    by (rule simulate_Inr(4) [OF r])
  have tl: "adoption_timeline (final r) = map (\<lambda>t. np_sum (has_adopted (state_after rs cfg r t))) [0..<?T]"
    unfolding fin by (rule state_after_timeline)
  have nth: "adoption_timeline (final r) ! t = np_sum (has_adopted (state_after rs cfg r t))"
    if "t < ?T" for t
    using that by (simp add: tl)
  have idle: "adoption_timeline (final r) ! t = adoption_timeline (final r) ! k"
    if "k \<le> t" "t < ?T"
      "potential_adopters_idx (has_adopted (state_after rs cfg r k)) (can_afford r) = []" for k t
  proof -
    from that(1) obtain m where "t = k + m" using le_Suc_ex by blast
    then have "has_adopted (state_after rs cfg r t) = has_adopted (state_after rs cfg r k)"
      using state_after_idle [OF that(3)] by simp
    then show ?thesis using that(1,2) by (simp add: nth)
  qed
  have "final r = (step cfg rs (can_afford r) ^^ ?T) (state_after rs cfg r 0)"
    unfolding fin by (rule state_after_funpow)
  moreover have "length (adoption_timeline (final r)) = ?T" by (simp add: tl)
  ultimately show ?thesis using r nth idle by blast
qed

theorem timeline_records_each_period_witness:
  "0 < gini demo_config \<and> 0 < population_size demo_config
   \<and> initial_size demo_config \<le> int (addressable_market demo_source demo_config)
   \<and> (\<exists>r. simulate demo_source demo_config = Inr r
           \<and> length (adoption_timeline (final r)) = 3
           \<and> adoption_timeline (final r) ! 2 = adoption_timeline (final r) ! 1)"
proof -
  have g: "0 < gini demo_config" by (simp add: demo_config_def)
  have n: "0 < population_size demo_config" by (simp add: demo_config_def)
  have m: "initial_size demo_config \<le> int (addressable_market demo_source demo_config)"
    by code_simp
  from timeline_records_each_period [OF g n m] obtain r where
    r: "simulate demo_source demo_config = Inr r"
    and len: "length (adoption_timeline (final r)) = nat (time_periods demo_config)"
    and idle: "\<forall>k t. k \<le> t \<and> t < nat (time_periods demo_config)
                 \<and> potential_adopters_idx (has_adopted (state_after demo_source demo_config r k)) (can_afford r) = []
                 \<longrightarrow> adoption_timeline (final r) ! t = adoption_timeline (final r) ! k"
    by blast
  have T: "nat (time_periods demo_config) = 3" by (simp add: demo_config_def)
  have "case simulate demo_source demo_config of Inl e \<Rightarrow> False
        | Inr r \<Rightarrow> potential_adopters_idx (has_adopted (state_after demo_source demo_config r 1)) (can_afford r) = []"
    by code_simp
  then have "potential_adopters_idx (has_adopted (state_after demo_source demo_config r 1)) (can_afford r) = []"
    using r by simp
  then have "adoption_timeline (final r) ! 2 = adoption_timeline (final r) ! 1"
    using idle [rule_format, of 1 2] T by simp
  then show ?thesis using g n m r len T by simp
qed

subsection \<open>Adopted agents are affordable\<close>

text \<open>
  Claim C2. In every state of a run, after the setup (\<open>k = 0\<close>) and after each
  iteration of the loop, the adoption array has the length of the affordability mask and
  every adopted agent is affordable.
\<close>

theorem adopted_implies_affordable:
  assumes "simulate rs cfg = Inr r"
  shows "length (has_adopted (state_after rs cfg r k)) = length (can_afford r)
         \<and> (\<forall>i < length (can_afford r).
               has_adopted (state_after rs cfg r k) ! i \<longrightarrow> can_afford r ! i)"
proof -
  let ?n = "nat (population_size cfg)"
  let ?s0 = "initial_state (initial_adopters r) ?n"
  have len: "length (can_afford r) = ?n" by (rule simulate_mask_length [OF assms])
  have l0: "length (has_adopted ?s0) = length (can_afford r)"
    by (simp add: len initial_state_length)
  have i0: "can_afford r ! i" if "i < length (can_afford r)" "has_adopted ?s0 ! i" for i
    using that simulate_initial(2) [OF assms] by (auto simp: len initial_state_nth)
  have "can_afford r ! i"
    if "i < length (can_afford r)" "has_adopted (state_after rs cfg r k) ! i" for i
    using sim_loop_invariant [OF l0 i0 that(1)] that(2) by (simp add: state_after_def)
  then show ?thesis using state_after_length [OF assms] by blast
qed

theorem adopted_implies_affordable_witness:
  "\<exists>r. simulate demo_source demo_config = Inr r
       \<and> length (has_adopted (state_after demo_source demo_config r 1)) = 12
       \<and> has_adopted (state_after demo_source demo_config r 1) ! 11
       \<and> can_afford r ! 11"
proof -
  have "case simulate demo_source demo_config of Inl e \<Rightarrow> False
        | Inr r \<Rightarrow> length (can_afford r) = 12
                  \<and> has_adopted (state_after demo_source demo_config r 1) ! 11"
    by code_simp
  then obtain r where r: "simulate demo_source demo_config = Inr r"
    and len: "length (can_afford r) = 12"
    and ad: "has_adopted (state_after demo_source demo_config r 1) ! 11"
    by (cases "simulate demo_source demo_config") auto
  from adopted_implies_affordable [OF r, of 1] len ad
  have "length (has_adopted (state_after demo_source demo_config r 1)) = 12 \<and> can_afford r ! 11"
    by simp
  then show ?thesis using r ad by blast
qed

subsection \<open>Monotone adoption\<close>

text \<open>
  Claim C3. An agent that is adopted in some state of a run is adopted in every later
  state, and the timeline is non-decreasing: entry \<open>t\<close> is at most entry \<open>t + 1\<close> for every
  \<open>t\<close> with \<open>t + 1 < time_periods\<close>.
\<close>

theorem adoption_is_monotone:
  assumes "simulate rs cfg = Inr r"
  shows "(\<forall>k k' i. k \<le> k' \<and> i < length (can_afford r) \<and> has_adopted (state_after rs cfg r k) ! i
            \<longrightarrow> has_adopted (state_after rs cfg r k') ! i)
         \<and> (\<forall>t. Suc t < nat (time_periods cfg)
            \<longrightarrow> adoption_timeline (final r) ! t \<le> adoption_timeline (final r) ! Suc t)"
proof -
  let ?n = "nat (population_size cfg)"
  let ?T = "nat (time_periods cfg)"
  have len: "length (can_afford r) = ?n" by (rule simulate_mask_length [OF assms])
  have keep: "has_adopted (state_after rs cfg r k') ! i"
    if "k \<le> k'" "i < length (can_afford r)" "has_adopted (state_after rs cfg r k) ! i" for k k' i
  proof -
    from that(1) obtain m where m: "k' = k + m" using le_Suc_ex by blast
    have "i < length (has_adopted (initial_state (initial_adopters r) ?n))"
      using that(2) by (simp add: len initial_state_length)
    then show ?thesis
      using that(3) unfolding m state_after_def by (rule sim_loop_keeps)
  qed
  have tl: "adoption_timeline (final r) = map (\<lambda>t. np_sum (has_adopted (state_after rs cfg r t))) [0..<?T]"
    unfolding simulate_Inr(4) [OF assms] by (rule state_after_timeline)
  have "adoption_timeline (final r) ! t \<le> adoption_timeline (final r) ! Suc t" if "Suc t < ?T" for t
    using that sim_loop_count_mono [of cfg rs "can_afford r" t]
    by (simp add: tl state_after_def)
  then show ?thesis using keep by blast
qed

theorem adoption_is_monotone_witness:
  "\<exists>r. simulate demo_source demo_config = Inr r
       \<and> has_adopted (state_after demo_source demo_config r 0) ! 3
       \<and> has_adopted (state_after demo_source demo_config r 2) ! 3
       \<and> adoption_timeline (final r) ! 0 \<le> adoption_timeline (final r) ! 1"
proof -
  have "case simulate demo_source demo_config of Inl e \<Rightarrow> False
        | Inr r \<Rightarrow> length (can_afford r) = 12
                  \<and> has_adopted (state_after demo_source demo_config r 0) ! 3"
    by code_simp
  then obtain r where r: "simulate demo_source demo_config = Inr r"
    and len: "length (can_afford r) = 12"
    and ad: "has_adopted (state_after demo_source demo_config r 0) ! 3"
    by (cases "simulate demo_source demo_config") auto
  have T: "nat (time_periods demo_config) = 3" by (simp add: demo_config_def)
  note mono = adoption_is_monotone [OF r]
  have "has_adopted (state_after demo_source demo_config r 2) ! 3"
    using mono [THEN conjunct1, rule_format, of 0 2 3] len ad by simp
  moreover have "adoption_timeline (final r) ! 0 \<le> adoption_timeline (final r) ! 1"
    using mono [THEN conjunct2, rule_format, of 0] T by simp
  ultimately show ?thesis using r ad by blast
qed

subsection \<open>A market that is too small\<close>

text \<open>
  Claim C4 as stated fails on the scenario of the specification: a hundred agents, none
  of whom reaches the threshold. The run ends in \<open>ValueError\<close>, not in
  \<open>InsufficientMarket\<close>.
\<close>

theorem small_market_counterexample:
  "int (addressable_market demo_source small_market_config) < initial_size small_market_config
   \<and> simulate demo_source small_market_config = Inl ValueError
   \<and> simulate demo_source small_market_config \<noteq> Inl InsufficientMarket"
  by code_simp

text \<open>
  Claim C4, as amended. The script has no check of the market size. When the
  addressable market is smaller than \<open>max(10, N // 100)\<close> (the Gini coefficient being
  positive and the population size not negative), the income sample and the mask are
  built first, and the run then fails with the \<open>ValueError\<close> that
  \<open>np.random.choice\<close> raises for a sample larger than the population; no timeline is
  produced.
\<close>

theorem small_market_fails_in_sampling:
  assumes "0 < gini cfg" and "0 \<le> population_size cfg"
    and "int (addressable_market rs cfg) < initial_size cfg"
  shows "simulate rs cfg = Inl ValueError
         \<and> (\<exists>incs. sample_incomes rs cfg = Inr incs
                \<and> np_random_choice rs (np_where (afford_mask cfg incs)) (initial_size cfg)
                    = Inl ValueError)"
proof -
  obtain incs where incs: "sample_incomes rs cfg = Inr incs"
    using sample_incomes_ok [OF assms(1,2)] by blast
  then have small: "int (np_sum (afford_mask cfg incs)) < initial_size cfg"
    using assms(3) by (simp add: addressable_market_def)
  have "simulate rs cfg = Inl ValueError"
    using incs small by (rule simulate_short)
  moreover have "np_random_choice rs (np_where (afford_mask cfg incs)) (initial_size cfg) = Inl ValueError"
    using small by (simp add: np_random_choice_def length_np_where)
  ultimately show ?thesis using incs by blast
qed

theorem small_market_fails_in_sampling_witness:
  "0 < gini small_market_config \<and> 0 \<le> population_size small_market_config
   \<and> int (addressable_market demo_source small_market_config) < initial_size small_market_config
   \<and> simulate demo_source small_market_config = Inl ValueError"
proof -
  have g: "0 < gini small_market_config" by (simp add: small_market_config_def)
  have n: "0 \<le> population_size small_market_config" by (simp add: small_market_config_def)
  have m: "int (addressable_market demo_source small_market_config) < initial_size small_market_config"
    by code_simp
  show ?thesis
    using small_market_fails_in_sampling [OF g n m] g n m by simp
qed

subsection \<open>Invalid parameters\<close>

text \<open>
  Claim C5 as stated fails on an empty population with a positive Gini coefficient: the
  (empty) income sample is produced, and the run ends in \<open>ValueError\<close>, not in
  \<open>InvalidParameter\<close>.
\<close>

theorem empty_population_counterexample:
  "population_size empty_population_config \<le> 0
   \<and> sample_incomes demo_source empty_population_config = Inr []
   \<and> simulate demo_source empty_population_config = Inl ValueError
   \<and> simulate demo_source empty_population_config \<noteq> Inl InvalidParameter"
  by code_simp

text \<open>
  Claim C5, as amended. The script validates nothing. For a population size \<open>N \<le> 0\<close>
  or a Gini coefficient \<open>gini \<le> 0\<close> the run fails before the loop, without a timeline,
  with \<open>ZeroDivisionError\<close> when \<open>gini = 0\<close> and with numpy's \<open>ValueError\<close> otherwise.
  For \<open>N < 0\<close> or \<open>gini \<le> 0\<close> the failure is that of line 33 and no income sample
  exists; for \<open>N = 0\<close> and \<open>gini > 0\<close> the empty income sample is produced and the
  failure is that of the sampling of line 38.
\<close>

theorem invalid_parameters_crash:
  assumes "population_size cfg \<le> 0 \<or> gini cfg \<le> 0"
  shows "simulate rs cfg = Inl (if gini cfg = 0 then ZeroDivisionError else ValueError)
         \<and> (population_size cfg < 0 \<or> gini cfg \<le> 0
              \<longrightarrow> sample_incomes rs cfg = Inl (if gini cfg = 0 then ZeroDivisionError else ValueError))
         \<and> (population_size cfg = 0 \<and> 0 < gini cfg \<longrightarrow> sample_incomes rs cfg = Inr [])"
proof (cases "population_size cfg < 0 \<or> gini cfg \<le> 0")
  case True
  then have "sample_incomes rs cfg = Inl (if gini cfg = 0 then ZeroDivisionError else ValueError)"
    by (rule sample_incomes_bad)
  then show ?thesis using True simulate_no_incomes [of rs cfg] by auto
next
  case False
  then have g: "0 < gini cfg" and n: "population_size cfg = 0"
    using assms by auto
  show ?thesis
    using simulate_empty_population [OF g n, of rs] g n by simp
qed

theorem invalid_parameters_crash_witness:
  "(population_size empty_population_config \<le> 0 \<or> gini empty_population_config \<le> 0)
   \<and> simulate demo_source empty_population_config = Inl ValueError
   \<and> sample_incomes demo_source empty_population_config = Inr []"
proof -
  have h: "population_size empty_population_config \<le> 0 \<or> gini empty_population_config \<le> 0"
    by (simp add: empty_population_config_def)
  have g: "0 < gini empty_population_config" "population_size empty_population_config = 0"
    by (simp_all add: empty_population_config_def demo_config_def)
  show ?thesis
    using invalid_parameters_crash [OF h, of demo_source] h g by simp
qed

subsection \<open>Market penetration\<close>

text \<open>
  Claim C6. The market penetration is \<open>final_adopters / addressable_market * 100\<close> when
  the addressable market is positive and \<open>0\<close> when it is empty; the division is never
  evaluated with a zero divisor (the result is never \<open>None\<close>).
\<close>

theorem market_penetration_guarded:
  "market_penetration n m \<noteq> None
   \<and> (0 < m \<longrightarrow> market_penetration n m = Some (real n / real m * 100))
   \<and> (m = 0 \<longrightarrow> market_penetration n m = Some 0)"
  by (simp add: market_penetration_def truediv_def)

theorem market_penetration_guarded_witness:
  "market_penetration 5 10 = Some 50 \<and> market_penetration 5 0 = Some 0"
  using market_penetration_guarded [of 5 10] market_penetration_guarded [of 5 0]
  by simp

subsection \<open>A single period\<close>

text \<open>
  Claim C7 as stated fails on a single period with twelve affordable agents and draws
  that always succeed: the timeline is \<open>[10]\<close>, and the two agents who were not initial
  adopters are adopted in the final state, which therefore differs from the initial one.
\<close>

theorem single_period_counterexample:
  "time_periods one_period_config = 1
   \<and> (case simulate demo_source one_period_config of
         Inl e \<Rightarrow> False
       | Inr r \<Rightarrow> adoption_timeline (final r) = [10]
                 \<and> has_adopted (state_after demo_source one_period_config r 0)
                     = replicate 10 True @ [False, False]
                 \<and> has_adopted (final r) = replicate 12 True
                 \<and> has_adopted (final r) \<noteq> has_adopted (state_after demo_source one_period_config r 0))"
  by code_simp

text \<open>
  Claim C7, as amended. With \<open>time_periods = 1\<close> and a successful setup, the timeline
  has exactly one entry, the initial-adopter count \<open>max(10, N // 100)\<close>. The single
  iteration still applies its updates: the final state is the loop body applied once to
  the initial state, so that an agent is adopted at the end exactly when it was an
  initial adopter or it was eligible and its draw was below the adoption probability.
\<close>

theorem single_period_run:
  assumes "0 < gini cfg" and "0 < population_size cfg"
    and "initial_size cfg \<le> int (addressable_market rs cfg)"
    and "time_periods cfg = 1"
  shows "\<exists>r. simulate rs cfg = Inr r
           \<and> adoption_timeline (final r) = [nat (max 10 (population_size cfg div 100))]
           \<and> final r = step cfg rs (can_afford r) (state_after rs cfg r 0)
           \<and> (\<forall>i < length (can_afford r).
                 has_adopted (final r) ! i =
                   (has_adopted (state_after rs cfg r 0) ! i \<or>
                    (\<exists>j < length (potential_adopters_idx (has_adopted (state_after rs cfg r 0)) (can_afford r)).
                       potential_adopters_idx (has_adopted (state_after rs cfg r 0)) (can_afford r) ! j = i
                       \<and> rand_draw rs j < prob_adopt cfg (nat (max 10 (population_size cfg div 100))))))"
proof -
  from assms obtain r where r: "simulate rs cfg = Inr r"
    using simulate_succeeds [of cfg rs] by auto
  let ?s0 = "state_after rs cfg r 0"
  have T: "nat (time_periods cfg) = Suc 0" using assms(4) by simp
  have fin: "final r = step cfg rs (can_afford r) ?s0"
    using simulate_Inr(4) [OF r] by (simp only: T state_after_Suc)
  have cnt: "np_sum (has_adopted ?s0) = nat (max 10 (population_size cfg div 100))"
    using initial_count [OF r] by (simp add: initial_size_def)
  have tl: "adoption_timeline (final r) = [nat (max 10 (population_size cfg div 100))]"
    unfolding fin step_timeline cnt by (simp add: state_after_def initial_state_timeline)
  have pos: "rand_pos ?s0 = 0" by (simp add: state_after_def initial_state_pos)
  have len: "length (has_adopted ?s0) = length (can_afford r)"
    by (rule state_after_length [OF r])
  have "has_adopted (final r) ! i =
          (has_adopted ?s0 ! i \<or>
           (\<exists>j < length (potential_adopters_idx (has_adopted ?s0) (can_afford r)).
              potential_adopters_idx (has_adopted ?s0) (can_afford r) ! j = i
              \<and> rand_draw rs j < prob_adopt cfg (nat (max 10 (population_size cfg div 100)))))"
    if "i < length (can_afford r)" for i
    using that step_nth [of i ?s0 cfg rs "can_afford r"] by (simp add: fin len pos cnt)
  then show ?thesis using r tl fin by blast
qed

theorem single_period_run_witness:
  "0 < gini one_period_config \<and> 0 < population_size one_period_config
   \<and> initial_size one_period_config \<le> int (addressable_market demo_source one_period_config)
   \<and> time_periods one_period_config = 1
   \<and> (\<exists>r. simulate demo_source one_period_config = Inr r \<and> adoption_timeline (final r) = [10])"
proof -
  have g: "0 < gini one_period_config" by (simp add: one_period_config_def demo_config_def)
  have n: "0 < population_size one_period_config" by (simp add: one_period_config_def demo_config_def)
  have m: "initial_size one_period_config \<le> int (addressable_market demo_source one_period_config)"
    by code_simp
  have t: "time_periods one_period_config = 1" by (simp add: one_period_config_def)
  have v: "nat (max 10 (population_size one_period_config div 100)) = 10"
    by (simp add: one_period_config_def demo_config_def)
  from single_period_run [OF g n m t] obtain r where
    "simulate demo_source one_period_config = Inr r"
    "adoption_timeline (final r) = [nat (max 10 (population_size one_period_config div 100))]"
    by blast
  then show ?thesis using g n m t v by auto
qed

subsection \<open>Unclamped probability\<close>

text \<open>
  Claim C8. The probability \<open>p + q * f\<close> is compared as it is. In a step in which it is
  at least \<open>1\<close>, \<open>f\<close> being the adoption fraction at the start of the step, every agent
  that has not adopted and can afford is adopted after the step, the uniform draws being
  below \<open>1\<close>.
\<close>

theorem unclamped_probability_adopts_all:
  assumes "\<forall>k. rand_draw rs k < 1"
    and "1 \<le> p cfg + q cfg * (real (np_sum (has_adopted s)) / real_of_int (population_size cfg))"
    and "length (has_adopted s) = length msk"
    and "i < length msk" and "\<not> has_adopted s ! i" and "msk ! i"
  shows "has_adopted (step cfg rs msk s) ! i"
proof -
  let ?pot = "potential_adopters_idx (has_adopted s) msk"
  have "i \<in> set ?pot"
    using assms(3-6) by (simp add: set_potential)
  then obtain j where j: "j < length ?pot" "?pot ! j = i"
    by (auto simp: in_set_conv_nth)
  have "rand_draw rs (rand_pos s + j) < 1"
    using assms(1) by blast
  then have "rand_draw rs (rand_pos s + j) < prob_adopt cfg (np_sum (has_adopted s))"
    unfolding prob_adopt_def using assms(2) by (rule less_le_trans)
  then show ?thesis
    using j assms(3,4) step_nth [of i s cfg rs msk] by auto
qed

theorem unclamped_probability_adopts_all_witness:
  "(\<forall>k. rand_draw \<lparr>pareto_draw = (\<lambda>a i. 1), choice_draw = (\<lambda>k. 0), rand_draw = (\<lambda>k. 9 / 10)\<rparr> k < 1)
   \<and> prob_adopt (demo_config\<lparr>p := 1\<rparr>) 10 = 17 / 12
   \<and> has_adopted (step (demo_config\<lparr>p := 1\<rparr>)
         \<lparr>pareto_draw = (\<lambda>a i. 1), choice_draw = (\<lambda>k. 0), rand_draw = (\<lambda>k. 9 / 10)\<rparr>
         (replicate 12 True)
         \<lparr>has_adopted = replicate 10 True @ [False, False], rand_pos = 0, adoption_timeline = []\<rparr>) ! 11"
proof -
  let ?rs = "\<lparr>pareto_draw = (\<lambda>a i. 1), choice_draw = (\<lambda>k. 0), rand_draw = (\<lambda>k. 9 / 10)\<rparr>"
  let ?cfg = "demo_config\<lparr>p := 1\<rparr>"
  let ?s = "\<lparr>has_adopted = replicate 10 True @ [False, False], rand_pos = 0, adoption_timeline = []\<rparr>"
  have d: "\<forall>k. rand_draw ?rs k < 1" by simp
  have pr: "prob_adopt ?cfg 10 = 17 / 12"
    by (simp add: prob_adopt_def demo_config_def)
  have cnt: "np_sum (has_adopted ?s) = 10" by (simp add: np_sum_def)
  have pa: "1 \<le> p ?cfg + q ?cfg * (real (np_sum (has_adopted ?s)) / real_of_int (population_size ?cfg))"
    unfolding cnt by (simp add: demo_config_def)
  have l: "length (has_adopted ?s) = length (replicate 12 True)" by simp
  have i: "11 < length (replicate 12 True)" by simp
  have na: "\<not> has_adopted ?s ! 11" by (simp add: nth_append)
  have af: "replicate 12 True ! 11" by simp
  show ?thesis
    using unclamped_probability_adopts_all [OF d pa l i na af] d pr by blast
qed

subsection \<open>Order of iteration within a step\<close>

text \<open>
  Claim C9. Every comparison of a step uses the adoption count taken at the start of the
  step. Let each eligible agent \<open>i\<close> have its own draw \<open>u i\<close>, and let the stream read by
  lines 47--50 deliver these draws in the order of iteration. Then iterating over any
  permutation \<open>idxs\<close> of the eligible agents yields the adoption array the step itself
  yields: agent \<open>i\<close> is adopted afterwards exactly when it was adopted before or it is
  eligible and \<open>u i\<close> is below \<open>p + q * f\<close>.
\<close>

theorem step_is_order_independent:
  assumes "mset idxs = mset (potential_adopters_idx (has_adopted s) msk)"
    and "\<forall>j < length (potential_adopters_idx (has_adopted s) msk).
           rand_draw rs (rand_pos s + j) = u (potential_adopters_idx (has_adopted s) msk ! j)"
    and "\<forall>j < length idxs. rand_draw rs' (c + j) = u (idxs ! j)"
  shows "fst (adopt_loop cfg rs' (np_sum (has_adopted s)) idxs (has_adopted s, c))
           = has_adopted (step cfg rs msk s)
         \<and> (\<forall>i < length (has_adopted s).
               has_adopted (step cfg rs msk s) ! i =
                 (has_adopted s ! i \<or>
                  (i \<in> set (potential_adopters_idx (has_adopted s) msk)
                   \<and> u i < p cfg + q cfg * (real (np_sum (has_adopted s)) / real_of_int (population_size cfg)))))"
proof -
  let ?h = "has_adopted s"
  let ?pot = "potential_adopters_idx ?h msk"
  let ?cur = "np_sum ?h"
  have sets: "set idxs = set ?pot" using assms(1) by (rule mset_eq_setD)
  have st: "has_adopted (step cfg rs msk s) = fst (adopt_loop cfg rs ?cur ?pot (?h, rand_pos s))"
    by (simp add: step_def Let_def)
  have a: "fst (adopt_loop cfg rs ?cur ?pot (?h, rand_pos s)) ! i =
           (?h ! i \<or> (i \<in> set ?pot \<and> u i < prob_adopt cfg ?cur))" if "i < length ?h" for i
    using assms(2) that by (rule adopt_loop_keyed)
  have b: "fst (adopt_loop cfg rs' ?cur idxs (?h, c)) ! i =
           (?h ! i \<or> (i \<in> set ?pot \<and> u i < prob_adopt cfg ?cur))" if "i < length ?h" for i
    using adopt_loop_keyed [OF assms(3) that] by (simp add: sets)
  have "fst (adopt_loop cfg rs' ?cur idxs (?h, c)) = fst (adopt_loop cfg rs ?cur ?pot (?h, rand_pos s))"
    by (rule nth_equalityI) (simp_all add: adopt_loop_length a b)
  then show ?thesis using a by (simp add: st prob_adopt_def)
qed

theorem step_is_order_independent_witness:
  "fst (adopt_loop demo_config
          \<lparr>pareto_draw = (\<lambda>a i. 1), choice_draw = (\<lambda>k. 0), rand_draw = (\<lambda>k. if k = 0 then 1 else 0)\<rparr>
          1 [1, 0] ([False, False, True], 0))
   = has_adopted (step demo_config
          \<lparr>pareto_draw = (\<lambda>a i. 1), choice_draw = (\<lambda>k. 0), rand_draw = (\<lambda>k. if k = 0 then 0 else 1)\<rparr>
          [True, True, True]
          \<lparr>has_adopted = [False, False, True], rand_pos = 0, adoption_timeline = []\<rparr>)
   \<and> has_adopted (step demo_config
          \<lparr>pareto_draw = (\<lambda>a i. 1), choice_draw = (\<lambda>k. 0), rand_draw = (\<lambda>k. if k = 0 then 0 else 1)\<rparr>
          [True, True, True]
          \<lparr>has_adopted = [False, False, True], rand_pos = 0, adoption_timeline = []\<rparr>)
     = [True, False, True]"
proof -
  let ?rs = "\<lparr>pareto_draw = (\<lambda>a i. 1), choice_draw = (\<lambda>k. 0), rand_draw = (\<lambda>k. if k = 0 then 0 else 1)\<rparr>"
  let ?rs' = "\<lparr>pareto_draw = (\<lambda>a i. 1), choice_draw = (\<lambda>k. 0), rand_draw = (\<lambda>k. if k = 0 then 1 else 0)\<rparr>"
  let ?s = "\<lparr>has_adopted = [False, False, True], rand_pos = 0, adoption_timeline = []\<rparr>"
  let ?msk = "[True, True, True]"
  let ?u = "\<lambda>i::nat. if i = 0 then 0 else (1::real)"
  have pot: "potential_adopters_idx (has_adopted ?s) ?msk = [0, 1]" by code_simp
  have cnt: "np_sum (has_adopted ?s) = 1" by code_simp
  have m: "mset [1, 0] = mset (potential_adopters_idx (has_adopted ?s) ?msk)"
    unfolding pot by simp
  have k: "\<forall>j < length (potential_adopters_idx (has_adopted ?s) ?msk).
             rand_draw ?rs (rand_pos ?s + j) = ?u (potential_adopters_idx (has_adopted ?s) ?msk ! j)"
    unfolding pot by (simp add: nth_Cons')
  have k': "\<forall>j < length [1, 0::nat]. rand_draw ?rs' (0 + j) = ?u ([1, 0] ! j)"
    by (simp add: nth_Cons')
  have eq: "fst (adopt_loop demo_config ?rs' (np_sum (has_adopted ?s)) [1, 0] (has_adopted ?s, 0))
            = has_adopted (step demo_config ?rs ?msk ?s)"
    using step_is_order_independent [OF m k k', of demo_config] by blast
  have v: "has_adopted (step demo_config ?rs ?msk ?s) = [True, False, True]"
    by code_simp
  show ?thesis using eq v unfolding cnt by simp
qed

subsection \<open>The final-adopter count\<close>

text \<open>
  Claim C10. For a run of at least one period, the reported final-adopter count is the
  last timeline entry, which is the adopter count of the state before the last iteration;
  the penetration is computed from it. It is at most the adopter count of the final state,
  and for some configurations strictly smaller.
\<close>

theorem final_adopters_excludes_last_step:
  "(simulate rs cfg = Inr r \<and> 0 < time_periods cfg \<longrightarrow>
      final_adopters r = Inr (np_sum (has_adopted (state_after rs cfg r (nat (time_periods cfg) - 1))))
      \<and> report r = Inr (np_sum (can_afford r),
                        np_sum (has_adopted (state_after rs cfg r (nat (time_periods cfg) - 1))),
                        market_penetration
                          (np_sum (has_adopted (state_after rs cfg r (nat (time_periods cfg) - 1))))
                          (np_sum (can_afford r)))
      \<and> np_sum (has_adopted (state_after rs cfg r (nat (time_periods cfg) - 1)))
          \<le> np_sum (has_adopted (final r)))
   \<and> (\<exists>rs' cfg' r' n. simulate rs' cfg' = Inr r' \<and> final_adopters r' = Inr n
          \<and> n < np_sum (has_adopted (final r')))"
proof -
  have general: "final_adopters r = Inr (np_sum (has_adopted (state_after rs cfg r (nat (time_periods cfg) - 1))))
      \<and> report r = Inr (np_sum (can_afford r),
                        np_sum (has_adopted (state_after rs cfg r (nat (time_periods cfg) - 1))),
                        market_penetration
                          (np_sum (has_adopted (state_after rs cfg r (nat (time_periods cfg) - 1))))
                          (np_sum (can_afford r)))
      \<and> np_sum (has_adopted (state_after rs cfg r (nat (time_periods cfg) - 1)))
          \<le> np_sum (has_adopted (final r))"
    if r: "simulate rs cfg = Inr r" and T: "0 < time_periods cfg"
  proof -
    obtain n where n: "nat (time_periods cfg) = Suc n"
      using T by (cases "nat (time_periods cfg)") auto
    have fin: "final r = state_after rs cfg r (Suc n)"
      using simulate_Inr(4) [OF r] by (simp only: n)
    have tl: "adoption_timeline (final r) =
              map (\<lambda>t. np_sum (has_adopted (state_after rs cfg r t))) [0..<n]
              @ [np_sum (has_adopted (state_after rs cfg r n))]"
      unfolding fin state_after_timeline [of rs cfg r "Suc n"] by simp
    have "adoption_timeline (final r) \<noteq> []"
      and "last (adoption_timeline (final r)) = np_sum (has_adopted (state_after rs cfg r n))"
      by (simp_all add: tl)
    then have fa: "final_adopters r = Inr (np_sum (has_adopted (state_after rs cfg r n)))"
      by (cases "adoption_timeline (final r)") (simp_all add: final_adopters_def)
    have rep: "report r = Inr (np_sum (can_afford r), np_sum (has_adopted (state_after rs cfg r n)),
                 market_penetration (np_sum (has_adopted (state_after rs cfg r n))) (np_sum (can_afford r)))"
      by (simp add: report_def Let_def fa total_addressable_market_def)
    have "np_sum (has_adopted (state_after rs cfg r n)) \<le> np_sum (has_adopted (final r))"
      unfolding fin state_after_def by (rule sim_loop_count_mono)
    then show ?thesis using fa rep by (simp add: n)
  qed
  have "case simulate demo_source one_period_config of Inl e \<Rightarrow> False
        | Inr r \<Rightarrow> final_adopters r = Inr 10 \<and> np_sum (has_adopted (final r)) = 12"
    by code_simp
  then obtain r' where "simulate demo_source one_period_config = Inr r'"
      "final_adopters r' = Inr 10" "np_sum (has_adopted (final r')) = 12"
    by (cases "simulate demo_source one_period_config") auto
  then have "\<exists>rs' cfg' r' n. simulate rs' cfg' = Inr r' \<and> final_adopters r' = Inr n
          \<and> n < np_sum (has_adopted (final r'))"
    by (intro exI [of _ demo_source] exI [of _ one_period_config] exI [of _ r'] exI [of _ 10]) simp
  then show ?thesis using general by blast
qed

theorem final_adopters_excludes_last_step_witness:
  "\<exists>r. simulate demo_source one_period_config = Inr r
       \<and> 0 < time_periods one_period_config
       \<and> final_adopters r = Inr 10
       \<and> report r = Inr (12, 10, Some (250 / 3))
       \<and> np_sum (has_adopted (final r)) = 12"
proof -
  have "case simulate demo_source one_period_config of Inl e \<Rightarrow> False
        | Inr r \<Rightarrow> np_sum (has_adopted (state_after demo_source one_period_config r 0)) = 10
                  \<and> np_sum (can_afford r) = 12
                  \<and> np_sum (has_adopted (final r)) = 12"
    by code_simp
  then obtain r where r: "simulate demo_source one_period_config = Inr r"
    and c0: "np_sum (has_adopted (state_after demo_source one_period_config r 0)) = 10"
    and ca: "np_sum (can_afford r) = 12"
    and cf: "np_sum (has_adopted (final r)) = 12"
    by (cases "simulate demo_source one_period_config") auto
  have T: "0 < time_periods one_period_config" "nat (time_periods one_period_config) - Suc 0 = 0"
    by (simp_all add: one_period_config_def)
  have mp: "market_penetration 10 12 = Some (250 / 3)"
    by (simp add: market_penetration_def truediv_def)
  from final_adopters_excludes_last_step [of demo_source one_period_config r, THEN conjunct1] r T(1)
  have "final_adopters r = Inr 10 \<and> report r = Inr (12, 10, Some (250 / 3))"
    by (simp add: T(2) c0 ca mp)
  then show ?thesis using r T(1) cf by blast
qed

end
